theory Spec2Isabelle
  imports Complex_Main
begin

section \<open>JavaScript values used by the invoice engine\<close>

text \<open>
  A JavaScript string is a sequence of UTF-16 code units; \<open>jsstring\<close> is the list of
  their numeric values, so that Devanagari digits and suffixes (code units above 255)
  are ordinary elements. \<open>u\<close> turns an ASCII literal into such a list.
  A value of type \<open>string | null | undefined\<close> is a \<open>jsstring option\<close>, a value of
  type \<open>number | null\<close> a \<open>real option\<close>. Numbers are real numbers here: the rounding
  of IEEE doubles, NaN and the infinities are outside the embedding.
\<close>

type_synonym jsstring = "nat list"

definition u :: "string \<Rightarrow> jsstring" where
  "u s = map of_char s"

text \<open>Truthiness of \<open>string | null\<close>: \<open>!s\<close> holds for null and for the empty string.\<close>

definition falsy :: "jsstring option \<Rightarrow> bool" where
  "falsy s = (case s of None \<Rightarrow> True | Some t \<Rightarrow> t = [])"

text \<open>Truthiness of \<open>number | null\<close>: \<open>!x\<close> holds for null and for zero.\<close>

definition falsy_num :: "real option \<Rightarrow> bool" where
  "falsy_num x = (case x of None \<Rightarrow> True | Some r \<Rightarrow> r = 0)"

text \<open>\<open>x || 0\<close> on \<open>number | null\<close>.\<close>

definition or_zero :: "real option \<Rightarrow> real" where
  "or_zero x = (if falsy_num x then 0 else the x)"

section \<open>String primitives\<close>

text \<open>
  \<open>String.prototype.trim\<close> and the regular-expression class \<open>\s\<close> use the same set:
  the WhiteSpace and LineTerminator code points of ECMAScript.
\<close>

definition is_space :: "nat \<Rightarrow> bool" where
  "is_space c =
     (c = 9 \<or> c = 10 \<or> c = 11 \<or> c = 12 \<or> c = 13 \<or> c = 32 \<or> c = 160 \<or> c = 5760
      \<or> (8192 \<le> c \<and> c \<le> 8202) \<or> c = 8232 \<or> c = 8233 \<or> c = 8239 \<or> c = 8287
      \<or> c = 12288 \<or> c = 65279)"

definition trim :: "jsstring \<Rightarrow> jsstring" where
  "trim s = rev (dropWhile is_space (rev (dropWhile is_space s)))"

text \<open>
  \<open>toLowerCase\<close> on the Basic Latin block. Digits, punctuation and Devanagari have no
  case and are returned unchanged, as in JavaScript; cased letters outside A-Z are
  outside the embedding and are returned unchanged too.
\<close>

definition lower_unit :: "nat \<Rightarrow> nat" where
  "lower_unit c = (if 65 \<le> c \<and> c \<le> 90 then c + 32 else c)"

definition toLowerCase :: "jsstring \<Rightarrow> jsstring" where
  "toLowerCase s = map lower_unit s"

definition endsWith :: "jsstring \<Rightarrow> jsstring \<Rightarrow> bool" where
  "endsWith s suffix =
     (length suffix \<le> length s \<and> drop (length s - length suffix) s = suffix)"

text \<open>The character classes of the regular expressions in the source.\<close>

definition is_control :: "nat \<Rightarrow> bool" where
  "is_control c = (c \<le> 31 \<or> c = 127)"

definition is_digit :: "nat \<Rightarrow> bool" where
  "is_digit c = (48 \<le> c \<and> c \<le> 57)"

definition is_lower_alnum_hyphen :: "nat \<Rightarrow> bool" where
  "is_lower_alnum_hyphen c = ((97 \<le> c \<and> c \<le> 122) \<or> is_digit c \<or> c = 45)"

definition is_alnum :: "nat \<Rightarrow> bool" where
  "is_alnum c = ((97 \<le> c \<and> c \<le> 122) \<or> (65 \<le> c \<and> c \<le> 90) \<or> is_digit c)"

text \<open>\<open>s.replace(/\s+/g, ' ')\<close>: every maximal run of whitespace becomes one space.\<close>

fun collapse_ws :: "jsstring \<Rightarrow> jsstring" where
  "collapse_ws [] = []"
| "collapse_ws [c] = [if is_space c then 32 else c]"
| "collapse_ws (c # d # cs) =
     (if is_space c
      then (if is_space d then collapse_ws (d # cs) else 32 # collapse_ws (d # cs))
      else c # collapse_ws (d # cs))"

text \<open>\<open>s.split(sep)\<close> for a separator of one code unit.\<close>

fun split :: "nat \<Rightarrow> jsstring \<Rightarrow> jsstring list" where
  "split sep [] = [[]]"
| "split sep (c # cs) =
     (if c = sep then [] # split sep cs
      else (case split sep cs of [] \<Rightarrow> [[c]] | p # ps \<Rightarrow> (c # p) # ps))"

text \<open>
  \<open>parseInt(s, 10)\<close>: leading whitespace is skipped, one sign is accepted, and the
  longest prefix of decimal digits is read; the result is NaN (\<open>None\<close>) when there is
  no digit. The numbers it yields are integers, and the dates of the calendar module are
  built from them, so dates carry \<open>int\<close> fields.
\<close>

definition digits_value :: "jsstring \<Rightarrow> int" where
  "digits_value ds = foldl (\<lambda>a c. 10 * a + (int c - 48)) 0 ds"

definition parseInt :: "jsstring \<Rightarrow> int option" where
  "parseInt s =
     (let t = dropWhile is_space s;
          neg = (t \<noteq> [] \<and> hd t = 45);
          r = (if t \<noteq> [] \<and> (hd t = 45 \<or> hd t = 43) then tl t else t);
          ds = takeWhile is_digit r
      in if ds = [] then None
         else Some (if neg then - digits_value ds else digits_value ds))"

text \<open>\<open>String(n)\<close> for an integer \<open>n\<close> (below the exponent notation of large doubles).\<close>

function digits10 :: "nat \<Rightarrow> jsstring" where
  "digits10 n = (if n < 10 then [48 + n] else digits10 (n div 10) @ [48 + n mod 10])"
  by pat_completeness auto
termination
  by (relation "measure id") auto

declare digits10.simps [simp del]

definition numberToString :: "int \<Rightarrow> jsstring" where
  "numberToString n = (if n < 0 then 45 # digits10 (nat (- n)) else digits10 (nat n))"

definition padStart :: "nat \<Rightarrow> nat \<Rightarrow> jsstring \<Rightarrow> jsstring" where
  "padStart n c s = replicate (n - length s) c @ s"

text \<open>The remainder operator \<open>%\<close> on integers: the sign follows the dividend.\<close>

definition js_rem :: "int \<Rightarrow> int \<Rightarrow> int" where
  "js_rem a b = sgn a * (\<bar>a\<bar> mod \<bar>b\<bar>)"

section \<open>Normalization module\<close>

definition nepali_digit :: "nat \<Rightarrow> nat" where
  "nepali_digit c = (if 2406 \<le> c \<and> c \<le> 2415 then c - 2406 + 48 else c)"

definition convertNepaliDigits :: "jsstring option \<Rightarrow> jsstring option" where
  "convertNepaliDigits input =
     (if falsy input then None else Some (map nepali_digit (the input)))"

definition normalizeString :: "jsstring option \<Rightarrow> jsstring option" where
  "normalizeString input =
     (if falsy input then None
      else Some (collapse_ws (filter (\<lambda>c. \<not> is_control c) (trim (the input)))))"

definition vendor_suffixes :: "jsstring list" where
  "vendor_suffixes =
     [u ''pvt ltd'', u ''pvt. ltd.'', u ''pvt. ltd'', u ''private limited'',
      u ''p ltd'', u ''p. ltd.'', u ''limited'', u ''ltd'', u ''ltd.'',
      u ''(p) ltd'', u ''(pvt) ltd'',
      [2346, 2381, 2352, 2366, 32, 2354, 2367],
      [2346, 2381, 2352, 2366, 46, 32, 2354, 2367, 46]]"

text \<open>One round of the suffix loop: \<open>if (s.endsWith(suffix)) s = s.slice(0, -suffix.length).trim()\<close>.\<close>

definition strip_suffix :: "jsstring \<Rightarrow> jsstring \<Rightarrow> jsstring" where
  "strip_suffix normalized suffix =
     (if endsWith normalized suffix
      then trim (take (length normalized - length suffix) normalized)
      else normalized)"

definition normalizeVendorName :: "jsstring option \<Rightarrow> jsstring option" where
  "normalizeVendorName input =
     (if falsy input then None
      else let normalized = normalizeString input in
           if falsy normalized then None
           else Some (foldl strip_suffix (toLowerCase (the normalized)) vendor_suffixes))"

definition normalizeInvoiceNumber :: "jsstring option \<Rightarrow> jsstring option" where
  "normalizeInvoiceNumber input =
     (if falsy input then None
      else let normalized = convertNepaliDigits input in
           if falsy normalized then None
           else let n = filter is_lower_alnum_hyphen (toLowerCase (the normalized))
                in if n = [] then None else Some n)"

text \<open>
  The template \<open>`${workspaceId}|${vendor}|${invNum}|${bsDate}`\<close>; 124 is the code
  unit of the vertical bar.
\<close>

definition merge_key_template ::
  "jsstring \<Rightarrow> jsstring \<Rightarrow> jsstring \<Rightarrow> jsstring \<Rightarrow> jsstring" where
  "merge_key_template w v i d = w @ [124] @ v @ [124] @ i @ [124] @ d"

text \<open>
  \<open>generateMergeKey\<close> of the normalization module. \<open>workspaceId\<close> is declared
  \<open>string\<close>; the guard \<open>!workspaceId\<close> also answers a null passed at run time, so all
  four parameters are options.
\<close>

definition generateMergeKey_norm ::
  "jsstring option \<Rightarrow> jsstring option \<Rightarrow> jsstring option \<Rightarrow> jsstring option
   \<Rightarrow> jsstring option" where
  "generateMergeKey_norm workspaceId vendorName invoiceNumber bsDate =
     (if falsy workspaceId \<or> falsy vendorName \<or> falsy invoiceNumber \<or> falsy bsDate
      then None
      else let vendor = normalizeVendorName vendorName;
               invNum = normalizeInvoiceNumber invoiceNumber
           in if falsy vendor \<or> falsy invNum then None
              else Some (merge_key_template (the workspaceId) (the vendor) (the invNum)
                           (the bsDate)))"

section \<open>Validation module\<close>

text \<open>
  The human-readable notes are template strings over formatted doubles; the embedding
  keeps which note is produced and the numbers it is built from.
\<close>

datatype review_note =
    MathMismatchNote real real real real
  | VatInconsistentNote real real real real
  | MissingFieldsNote "jsstring list"
  | InvalidPanNote jsstring
  | TransactionDateFailedNote
  | BillIssuingDateFailedNote

definition AMOUNT_TOLERANCE :: real where
  "AMOUNT_TOLERANCE = 2"

definition VALID_VAT_RATES :: "real list" where
  "VALID_VAT_RATES = [0, 13]"

record MathResult =
  mismatch :: bool
  math_note :: "review_note option"

definition checkMathMismatch ::
  "real option \<Rightarrow> real option \<Rightarrow> real option \<Rightarrow> real \<Rightarrow> MathResult" where
  "checkMathMismatch taxableAmount vatAmount grandTotal tolerance =
     (case grandTotal of
        None \<Rightarrow> \<lparr>mismatch = False, math_note = None\<rparr>
      | Some tot \<Rightarrow>
          (let taxable = or_zero taxableAmount;
               vat = or_zero vatAmount;
               expectedTotal = taxable + vat;
               difference = \<bar>expectedTotal - tot\<bar>
           in if difference > tolerance
              then \<lparr>mismatch = True,
                    math_note = Some (MathMismatchNote taxable vat expectedTotal tot)\<rparr>
              else \<lparr>mismatch = False, math_note = None\<rparr>))"

record VatResult =
  inconsistent :: bool
  vat_note :: "review_note option"

definition checkVatInconsistent ::
  "real option \<Rightarrow> real option \<Rightarrow> real option \<Rightarrow> real \<Rightarrow> VatResult" where
  "checkVatInconsistent taxableAmount vatAmount vatRate tolerance =
     (if falsy_num vatRate \<or> vatRate = Some 0
      then \<lparr>inconsistent = False, vat_note = None\<rparr>
      else if falsy_num taxableAmount \<or> taxableAmount = Some 0
      then \<lparr>inconsistent = False, vat_note = None\<rparr>
      else (case vatAmount of
              None \<Rightarrow> \<lparr>inconsistent = False, vat_note = None\<rparr>
            | Some vat \<Rightarrow>
                (let expectedVat = the taxableAmount * (the vatRate / 100);
                     difference = \<bar>expectedVat - vat\<bar>
                 in if difference > tolerance
                    then \<lparr>inconsistent = True,
                          vat_note = Some (VatInconsistentNote (the vatRate)
                                             (the taxableAmount) expectedVat vat)\<rparr>
                    else \<lparr>inconsistent = False, vat_note = None\<rparr>)))"

definition inferVatRate :: "real option \<Rightarrow> real option \<Rightarrow> real option \<Rightarrow> real" where
  "inferVatRate taxableAmount vatAmount explicitRate =
     (if explicitRate \<noteq> None \<and> the explicitRate \<in> set VALID_VAT_RATES
      then the explicitRate
      else if falsy_num vatAmount \<or> vatAmount = Some 0 then 0
      else if \<not> falsy_num taxableAmount \<and> the taxableAmount > 0
              \<and> \<bar>(the vatAmount / the taxableAmount) * 100 - 13\<bar> \<le> 1
      then 13
      else 13)"

record InvoiceValidationFlags =
  missing_fields :: bool
  math_mismatch :: bool
  vat_inconsistent :: bool
  date_conversion_failed :: bool
  date_mismatch :: bool
  duplicate_invoice :: bool
  pan_invalid :: bool
  flag_notes :: "review_note list"

definition canAutoApprove :: "InvoiceValidationFlags \<Rightarrow> bool" where
  "canAutoApprove flags =
     (\<not> missing_fields flags \<and> \<not> math_mismatch flags \<and> \<not> date_conversion_failed flags)"

section \<open>Processing module: VAT validation\<close>

definition inferVATRate :: "real option \<Rightarrow> real option \<Rightarrow> real option \<Rightarrow> real" where
  "inferVATRate vatAmount taxableAmount explicitRate =
     (if explicitRate \<noteq> None \<and> (explicitRate = Some 0 \<or> explicitRate = Some 13)
      then the explicitRate
      else if falsy_num vatAmount \<or> vatAmount = Some 0 then 0
      else if \<not> falsy_num taxableAmount \<and> the taxableAmount > 0
              \<and> \<bar>(the vatAmount / the taxableAmount) * 100 - 13\<bar> \<le> 1
      then 13
      else 13)"

record VatValidation =
  vv_math_mismatch :: bool
  vv_vat_inconsistent :: bool
  vv_notes :: "review_note list"

definition validateVAT ::
  "real option \<Rightarrow> real option \<Rightarrow> real option \<Rightarrow> real \<Rightarrow> VatValidation" where
  "validateVAT taxableAmount vatAmount grandTotal vatRate =
     (let taxable = or_zero taxableAmount;
          vat = or_zero vatAmount;
          tot = or_zero grandTotal;
          expectedTotal = taxable + vat;
          mm = (\<bar>expectedTotal - tot\<bar> > 2);
          notes1 = (if mm then [MathMismatchNote taxable vat expectedTotal tot] else []);
          expectedVat = taxable * (vatRate / 100);
          vi = (vatRate > 0 \<and> taxable > 0 \<and> \<bar>expectedVat - vat\<bar> > 2);
          notes2 = (if vi then [VatInconsistentNote vatRate taxable expectedVat vat] else [])
      in \<lparr>vv_math_mismatch = mm, vv_vat_inconsistent = vi, vv_notes = notes1 @ notes2\<rparr>)"

section \<open>Processing module: merge key\<close>

text \<open>
  The two local constants of \<open>generateMergeKey\<close> in the processing module:
  \<open>normalizeString(v)?.toLowerCase().trim() || ''\<close> and
  \<open>convertNepaliDigits(n)?.replace(/[^a-zA-Z0-9]/g, '').toLowerCase() || ''\<close>.
\<close>

definition vendorNormalized :: "jsstring option \<Rightarrow> jsstring" where
  "vendorNormalized vendorNameEn =
     (case normalizeString vendorNameEn of
        None \<Rightarrow> []
      | Some n \<Rightarrow> trim (toLowerCase n))"

definition invoiceNormalized :: "jsstring option \<Rightarrow> jsstring" where
  "invoiceNormalized invoiceNumberEn =
     (case convertNepaliDigits invoiceNumberEn of
        None \<Rightarrow> []
      | Some n \<Rightarrow> toLowerCase (filter is_alnum n))"

definition generateMergeKey ::
  "jsstring option \<Rightarrow> jsstring option \<Rightarrow> jsstring option \<Rightarrow> jsstring option
   \<Rightarrow> jsstring option" where
  "generateMergeKey workspaceId vendorNameEn invoiceNumberEn primaryBsDate =
     (if falsy workspaceId \<or> falsy vendorNameEn \<or> falsy invoiceNumberEn
         \<or> falsy primaryBsDate
      then None
      else if vendorNormalized vendorNameEn = [] \<or> invoiceNormalized invoiceNumberEn = []
      then None
      else Some (merge_key_template (the workspaceId) (vendorNormalized vendorNameEn)
                   (invoiceNormalized invoiceNumberEn) (the primaryBsDate)))"

section \<open>Calendar module\<close>

subsection \<open>The built-in Date\<close>

text \<open>
  The day arithmetic of ECMAScript, in days since 1 January 1970. \<open>DayFromYear y\<close> is
  the day number of 1 January of year \<open>y\<close>, \<open>DaysInYear\<close> is 365 or 366 by the
  Gregorian leap rule, and \<open>YearFromDay z\<close> is the year \<open>y\<close> with
  \<open>DayFromYear y \<le> z < DayFromYear (y + 1)\<close>, found by counting up from a year that
  is not after it.
\<close>

definition isLeap :: "int \<Rightarrow> bool" where
  "isLeap y = (if y mod 400 = 0 then True else if y mod 100 = 0 then False else y mod 4 = 0)"

definition DayFromYear :: "int \<Rightarrow> int" where
  "DayFromYear y =
     365 * (y - 1970) + (y - 1969) div 4 - (y - 1901) div 100 + (y - 1601) div 400"

definition DaysInYear :: "int \<Rightarrow> int" where
  "DaysInYear y = (if isLeap y then 366 else 365)"

text \<open>The years follow one another: this is what makes the search for a year end.\<close>

lemma div_succ:
  fixes a n :: int
  assumes "1 < n"
  shows "(a + 1) div n = a div n + (if (a + 1) mod n = 0 then 1 else 0)"
proof -
  define q where "q = a div n"
  define r where "r = a mod n"
  have a: "a = q * n + r"
    by (simp add: q_def r_def)
  have r: "0 \<le> r" "r < n"
    using assms by (simp_all add: r_def)
  show ?thesis
  proof (cases "r + 1 = n")
    case True
    then have "a + 1 = (q + 1) * n"
      using a by (simp add: algebra_simps)
    then show ?thesis
      using assms by (simp add: q_def)
  next
    case False
    then have lt: "r + 1 < n"
      using r by simp
    have eq: "a + 1 = q * n + (r + 1)"
      using a by simp
    have d: "(a + 1) div n = q"
      unfolding eq using lt r assms by (simp add: div_pos_pos_trivial)
    have m: "(a + 1) mod n = r + 1"
      unfolding eq using lt r assms by (simp add: mod_pos_pos_trivial)
    show ?thesis
      using d m r by (simp add: q_def)
  qed
qed

lemma mod_shift:
  fixes y c n :: int
  assumes "c mod n = 0"
  shows "(y - c) mod n = y mod n"
proof -
  have "(y - c) mod n = (y mod n - c mod n) mod n"
    by (simp add: mod_diff_eq)
  then show ?thesis
    using assms by simp
qed

lemma leap_steps:
  fixes y :: int
  shows "(y - 1968) div 4 = (y - 1969) div 4 + (if y mod 4 = 0 then 1 else 0)"
    and "(y - 1900) div 100 = (y - 1901) div 100 + (if y mod 100 = 0 then 1 else 0)"
    and "(y - 1600) div 400 = (y - 1601) div 400 + (if y mod 400 = 0 then 1 else 0)"
proof -
  have e4: "y - 1969 + 1 = y - 1968"
    by simp
  have "(y - 1968) mod 4 = y mod 4"
    by (rule mod_shift) simp
  then show "(y - 1968) div 4 = (y - 1969) div 4 + (if y mod 4 = 0 then 1 else 0)"
    using div_succ[of 4 "y - 1969"] unfolding e4 by simp
  have e100: "y - 1901 + 1 = y - 1900"
    by simp
  have "(y - 1900) mod 100 = y mod 100"
    by (rule mod_shift) simp
  then show "(y - 1900) div 100 = (y - 1901) div 100 + (if y mod 100 = 0 then 1 else 0)"
    using div_succ[of 100 "y - 1901"] unfolding e100 by simp
  have e400: "y - 1601 + 1 = y - 1600"
    by simp
  have "(y - 1600) mod 400 = y mod 400"
    by (rule mod_shift) simp
  then show "(y - 1600) div 400 = (y - 1601) div 400 + (if y mod 400 = 0 then 1 else 0)"
    using div_succ[of 400 "y - 1601"] unfolding e400 by simp
qed

lemma step_sum:
  fixes A1 A0 B1 B0 C1 C0 a b c y :: int
  assumes "A1 = A0 + a" "B1 = B0 + b" "C1 = C0 + c"
  shows "365 * (y - 1969) + A1 - B1 + C1
         = (365 * (y - 1970) + A0 - B0 + C0) + (365 + a - b + c)"
  using assms by simp

lemma DayFromYear_step: "DayFromYear (y + 1) = DayFromYear y + DaysInYear y"
proof -
  have a: "y mod 400 = 0 \<Longrightarrow> y mod 100 = 0"
    using mod_mod_cancel[of 100 400 y] by simp
  have b: "y mod 100 = 0 \<Longrightarrow> y mod 4 = 0"
    using mod_mod_cancel[of 4 100 y] by simp
  have d: "DayFromYear (y + 1) =
           365 * (y - 1969) + (y - 1968) div 4 - (y - 1900) div 100 + (y - 1600) div 400"
    by (simp add: DayFromYear_def)
  have e: "365 + (if y mod 4 = 0 then 1 else 0)
          - (if y mod 100 = 0 then 1 else 0) + (if y mod 400 = 0 then 1 else (0::int))
          = DaysInYear y"
    using a b by (cases "y mod 400 = 0"; cases "y mod 100 = 0"; cases "y mod 4 = 0")
      (simp_all add: DaysInYear_def isLeap_def)
  note d
  also have "365 * (y - 1969) + (y - 1968) div 4 - (y - 1900) div 100 + (y - 1600) div 400
     = (365 * (y - 1970) + (y - 1969) div 4 - (y - 1901) div 100 + (y - 1601) div 400)
       + (365 + (if y mod 4 = 0 then 1 else 0)
          - (if y mod 100 = 0 then 1 else 0) + (if y mod 400 = 0 then 1 else 0))"
    by (rule step_sum) (rule leap_steps)+
  also have "\<dots> = DayFromYear y + DaysInYear y"
    unfolding e DayFromYear_def ..
  finally show ?thesis .
qed

lemma DaysInYear_bounds: "365 \<le> DaysInYear y" "DaysInYear y \<le> 366"
  by (simp_all add: DaysInYear_def)

lemma DayFromYear_mono_step: "DayFromYear y < DayFromYear (y + 1)"
  using DayFromYear_step[of y] DaysInYear_bounds[of y] by linarith

function year_search :: "int \<Rightarrow> int \<Rightarrow> int" where
  "year_search z y = (if DayFromYear (y + 1) \<le> z then year_search z (y + 1) else y)"
  by pat_completeness auto
termination
proof (relation "measure (\<lambda>(z, y). nat (z - DayFromYear y))")
  show "wf (measure (\<lambda>(z, y). nat (z - DayFromYear y)))"
    by simp
next
  fix z y :: int
  assume "DayFromYear (y + 1) \<le> z"
  then show "((z, y + 1), (z, y)) \<in> measure (\<lambda>(z, y). nat (z - DayFromYear y))"
    using DayFromYear_mono_step[of y] by simp
qed

declare year_search.simps [simp del]

definition YearFromDay :: "int \<Rightarrow> int" where
  "YearFromDay z = year_search z (1970 + (if 0 \<le> z then z div 366 else z div 365 - 1))"

text \<open>
  Months within a year: the twelve lengths of the year, the days before a month, and the
  month and the day within it of a day of the year. \<open>locate\<close> works on any list of
  month lengths.
\<close>

definition month_lengths :: "int \<Rightarrow> int list" where
  "month_lengths y = [31, if isLeap y then 29 else 28, 31, 30, 31, 30, 31, 31, 30, 31, 30, 31]"

definition days_before :: "int list \<Rightarrow> int \<Rightarrow> int" where
  "days_before ls k = sum_list (take (nat k) ls)"

fun locate :: "int list \<Rightarrow> int \<Rightarrow> int \<times> int" where
  "locate [] n = (0, n)"
| "locate (l # ls) n =
     (if n < l then (0, n) else (case locate ls (n - l) of (k, r) \<Rightarrow> (k + 1, r)))"

text \<open>
  \<open>MakeDay\<close> reduces the month index modulo 12 into the year and counts the day from
  the first of that month, so a day beyond the end of a month rolls over into the next
  one. \<open>civil_of_day\<close> reads the year, the 0-indexed month and the day of the month
  back.
\<close>

definition MakeDay :: "int \<Rightarrow> int \<Rightarrow> int \<Rightarrow> int" where
  "MakeDay year month date =
     (let ym = year + month div 12;
          mn = month mod 12
      in DayFromYear ym + days_before (month_lengths ym) mn + date - 1)"

definition civil_of_day :: "int \<Rightarrow> int \<times> int \<times> int" where
  "civil_of_day z =
     (let y = YearFromDay z
      in case locate (month_lengths y) (z - DayFromYear y) of (m, r) \<Rightarrow> (y, m, r + 1))"

text \<open>
  \<open>new Date(year, monthIndex, day)\<close>: years 0 to 99 stand for 1900 to 1999, and a day
  more than \<open>10\<^sup>8\<close> days from the epoch gives an invalid Date. The value kept is the
  local calendar day: \<open>JSDate y m d\<close> has \<open>getFullYear() = y\<close>, \<open>getMonth() = m\<close>
  (0-indexed) and \<open>getDate() = d\<close>.
\<close>

datatype JSDate = JSDate int int int | InvalidDate

definition new_Date :: "int \<Rightarrow> int \<Rightarrow> int \<Rightarrow> JSDate" where
  "new_Date year monthIndex day =
     (let yr = (if 0 \<le> year \<and> year \<le> 99 then 1900 + year else year);
          dayno = MakeDay yr monthIndex day
      in if \<bar>dayno\<bar> > 100000000 then InvalidDate
         else (case civil_of_day dayno of (y, m, d) \<Rightarrow> JSDate y m d))"

subsection \<open>The nepali-date-converter package\<close>

text \<open>
  The calendar module wraps the class \<open>NepaliDate\<close> of the package
  nepali-date-converter, whose code and calendar table are not among the sources. The
  package is a parameter of the embedding: its two constructors, returning \<open>None\<close> where
  they throw. \<open>getBS()\<close> and \<open>getAD()\<close> return a year, a 0-indexed month and a day
  of the month.
\<close>

record NPFields =
  np_year :: int
  np_month :: int
  np_date :: int

record NepaliDate =
  getBS :: NPFields
  getAD :: NPFields

record NepaliDateLib =
  new_NepaliDate :: "int \<Rightarrow> int \<Rightarrow> int \<Rightarrow> NepaliDate option"
  NepaliDate_of_Date :: "JSDate \<Rightarrow> NepaliDate option"

subsection \<open>Conversion\<close>

record BSDate =
  bs_year :: int
  bs_month :: int
  bs_day :: int

record ADDate =
  ad_year :: int
  ad_month :: int
  ad_day :: int

definition bsToAd :: "NepaliDateLib \<Rightarrow> BSDate \<Rightarrow> ADDate option" where
  "bsToAd np bs =
     (case new_NepaliDate np (bs_year bs) (bs_month bs - 1) (bs_day bs) of
        None \<Rightarrow> None
      | Some npDate \<Rightarrow>
          (let ad = getAD npDate
           in Some \<lparr>ad_year = np_year ad, ad_month = np_month ad + 1, ad_day = np_date ad\<rparr>))"

definition adToBs :: "NepaliDateLib \<Rightarrow> ADDate \<Rightarrow> BSDate option" where
  "adToBs np ad =
     (let jsDate = new_Date (ad_year ad) (ad_month ad - 1) (ad_day ad)
      in case NepaliDate_of_Date np jsDate of
           None \<Rightarrow> None
         | Some npDate \<Rightarrow>
             (let bs = getBS npDate
              in Some \<lparr>bs_year = np_year bs, bs_month = np_month bs + 1,
                       bs_day = np_date bs\<rparr>))"

subsection \<open>Parsing and formatting\<close>

definition parseBSDate :: "jsstring \<Rightarrow> BSDate option" where
  "parseBSDate str =
     (if str = [] then None
      else let cleaned = map (\<lambda>c. if c = 46 \<or> c = 45 then 47 else c) (trim str);
               parts = split 47 cleaned
           in if length parts \<noteq> 3 then None
              else (case (parseInt (parts ! 0), parseInt (parts ! 1), parseInt (parts ! 2)) of
                      (Some year, Some month, Some day) \<Rightarrow>
                        if month < 1 \<or> month > 12 \<or> day < 1 \<or> day > 32 then None
                        else Some \<lparr>bs_year = year, bs_month = month, bs_day = day\<rparr>
                    | _ \<Rightarrow> None))"

definition parseADDate :: "jsstring \<Rightarrow> ADDate option" where
  "parseADDate str =
     (if str = [] then None
      else let cleaned = map (\<lambda>c. if c = 47 then 45 else c) (trim str);
               parts = split 45 cleaned
           in if length parts \<noteq> 3 then None
              else (case (parseInt (parts ! 0), parseInt (parts ! 1), parseInt (parts ! 2)) of
                      (Some year, Some month, Some day) \<Rightarrow>
                        if month < 1 \<or> month > 12 \<or> day < 1 \<or> day > 31 then None
                        else Some \<lparr>ad_year = year, ad_month = month, ad_day = day\<rparr>
                    | _ \<Rightarrow> None))"

definition formatBSDate :: "BSDate \<Rightarrow> jsstring" where
  "formatBSDate bs =
     (let mm = padStart 2 48 (numberToString (bs_month bs));
          dd = padStart 2 48 (numberToString (bs_day bs))
      in numberToString (bs_year bs) @ [47] @ mm @ [47] @ dd)"

definition formatADDate :: "ADDate \<Rightarrow> jsstring" where
  "formatADDate ad =
     (let mm = padStart 2 48 (numberToString (ad_month ad));
          dd = padStart 2 48 (numberToString (ad_day ad))
      in numberToString (ad_year ad) @ [45] @ mm @ [45] @ dd)"

record ConvertedDate =
  bs :: BSDate
  ad :: ADDate
  bsFormatted :: jsstring
  adFormatted :: jsstring

definition convertFromBS :: "NepaliDateLib \<Rightarrow> jsstring \<Rightarrow> ConvertedDate option" where
  "convertFromBS np bsString =
     (case parseBSDate bsString of
        None \<Rightarrow> None
      | Some b \<Rightarrow>
          (case bsToAd np b of
             None \<Rightarrow> None
           | Some a \<Rightarrow>
               Some \<lparr>bs = b, ad = a, bsFormatted = formatBSDate b,
                     adFormatted = formatADDate a\<rparr>))"

definition convertFromAD :: "NepaliDateLib \<Rightarrow> jsstring \<Rightarrow> ConvertedDate option" where
  "convertFromAD np adString =
     (case parseADDate adString of
        None \<Rightarrow> None
      | Some a \<Rightarrow>
          (case adToBs np a of
             None \<Rightarrow> None
           | Some b \<Rightarrow>
               Some \<lparr>bs = b, ad = a, bsFormatted = formatBSDate b,
                     adFormatted = formatADDate a\<rparr>))"

subsection \<open>Fiscal year\<close>

definition getFiscalYear :: "BSDate \<Rightarrow> jsstring" where
  "getFiscalYear b =
     (if bs_month b \<ge> 4
      then (let endYear = js_rem (bs_year b + 1) 100
            in numberToString (bs_year b) @ [47] @ padStart 2 48 (numberToString endYear))
      else (let startYear = bs_year b - 1;
                endYear = js_rem (bs_year b) 100
            in numberToString startYear @ [47] @ padStart 2 48 (numberToString endYear)))"

text \<open>
  The round trip at one Gregorian input: where \<open>adToBs\<close> returns a date, \<open>bsToAd\<close>
  gives the input back. The round trip at one Bikram Sambat input likewise.
\<close>

definition ad_roundtrip :: "NepaliDateLib \<Rightarrow> ADDate \<Rightarrow> bool" where
  "ad_roundtrip np a = (case adToBs np a of None \<Rightarrow> True | Some b \<Rightarrow> bsToAd np b = Some a)"

definition bs_roundtrip :: "NepaliDateLib \<Rightarrow> BSDate \<Rightarrow> bool" where
  "bs_roundtrip np b = (case bsToAd np b of None \<Rightarrow> True | Some a \<Rightarrow> adToBs np a = Some b)"

text \<open>
  Modelled from the spec: the package nepali-date-converter is missing from the sources.
  The spec requires the conversion to be "backed by an explicit per-year, per-month
  day-count table" and to return null "for out-of-range years or an invalid day-for-month
  combination". \<open>tableLib T\<close> is such a converter for any table \<open>T\<close>: the first
  Bikram Sambat year of the table, the day number (in days since 1 January 1970) of
  Baisakh 1 of that year, and the month lengths, twelve for each year, year after year.
  A table is well formed when every month has at least one day and its days lie in the
  years the Date constructor takes as they are.
\<close>

record BSTable =
  first_year :: int
  first_day :: int
  month_days :: "int list"

definition table_new :: "BSTable \<Rightarrow> int \<Rightarrow> int \<Rightarrow> int \<Rightarrow> NepaliDate option" where
  "table_new T y m d =
     (let k = 12 * (y - first_year T) + m
      in if y < first_year T \<or> m < 0 \<or> 12 \<le> m \<or> int (length (month_days T)) \<le> k
         then None
         else if d < 1 \<or> month_days T ! nat k < d then None
         else (case civil_of_day (first_day T + days_before (month_days T) k + d - 1) of
                 (gy, gm, gd) \<Rightarrow>
                   Some \<lparr>getBS = \<lparr>np_year = y, np_month = m, np_date = d\<rparr>,
                         getAD = \<lparr>np_year = gy, np_month = gm, np_date = gd\<rparr>\<rparr>))"

definition table_of_Date :: "BSTable \<Rightarrow> JSDate \<Rightarrow> NepaliDate option" where
  "table_of_Date T j =
     (case j of
        InvalidDate \<Rightarrow> None
      | JSDate y m d \<Rightarrow>
          (let n = MakeDay y m d - first_day T
           in if n < 0 \<or> sum_list (month_days T) \<le> n then None
              else (case locate (month_days T) n of
                      (k, r) \<Rightarrow>
                        Some \<lparr>getBS = \<lparr>np_year = first_year T + k div 12,
                                        np_month = k mod 12, np_date = r + 1\<rparr>,
                              getAD = \<lparr>np_year = y, np_month = m, np_date = d\<rparr>\<rparr>)))"

definition tableLib :: "BSTable \<Rightarrow> NepaliDateLib" where
  "tableLib T = \<lparr>new_NepaliDate = table_new T, NepaliDate_of_Date = table_of_Date T\<rparr>"

definition wf_table :: "BSTable \<Rightarrow> bool" where
  "wf_table T =
     (list_all (\<lambda>l. 0 < l) (month_days T) \<and> DayFromYear 100 \<le> first_day T
      \<and> first_day T + sum_list (month_days T) \<le> 100000000)"

text \<open>A Gregorian date that exists, in a year the Date constructor takes as it is.\<close>

definition valid_ad :: "ADDate \<Rightarrow> bool" where
  "valid_ad a =
     (100 \<le> ad_year a \<and> 1 \<le> ad_month a \<and> ad_month a \<le> 12 \<and> 1 \<le> ad_day a
      \<and> ad_day a \<le> month_lengths (ad_year a) ! nat (ad_month a - 1))"

text \<open>
  An example table of one year, Bikram Sambat 2082, which begins on 14 April 2025 (day
  20192). The spec lists no month lengths; those below are the months of that year, and
  the spec's reference pair holds under them (\<open>example_reference\<close> below).
\<close>

definition example_table :: BSTable where
  "example_table =
     \<lparr>first_year = 2082, first_day = 20192,
      month_days = [31, 31, 32, 31, 31, 31, 30, 29, 30, 29, 30, 30]\<rparr>"

text \<open>
  Modelled from the spec: the package nepali-date-converter and its calendar table are
  missing from the sources. The one conversion the spec fixes is its reference pair,
  "BS 2082/09/07 converts to AD 2025-12-22, and AD 2025-12-22 converts to BS
  2082/09/07"; \<open>referenceLib\<close> converts this pair and fails on every other date, as a
  date outside the table must.
\<close>

definition reference_date :: NepaliDate where
  "reference_date =
     \<lparr>getBS = \<lparr>np_year = 2082, np_month = 8, np_date = 7\<rparr>,
      getAD = \<lparr>np_year = 2025, np_month = 11, np_date = 22\<rparr>\<rparr>"

definition referenceLib :: NepaliDateLib where
  "referenceLib =
     \<lparr>new_NepaliDate = (\<lambda>y m d. if y = 2082 \<and> m = 8 \<and> d = 7 then Some reference_date else None),
      NepaliDate_of_Date = (\<lambda>j. if j = JSDate 2025 11 22 then Some reference_date else None)\<rparr>"

text \<open>The two decimal digits of a number between 0 and 99, the tens first.\<close>

definition two_digits :: "int \<Rightarrow> jsstring" where
  "two_digits n = [48 + nat (n div 10), 48 + nat (n mod 10)]"

section \<open>Processing module: flags and approval\<close>

text \<open>
  Three steps of \<open>processGeminiExtraction\<close>. Step 4 computes \<open>vatValidation\<close> from the
  four amounts of the extraction. Steps 7 and 8 build the flags and \<open>can_approve\<close>; they
  are functions of the values the earlier steps leave in \<open>missing_fields\<close>,
  \<open>vatValidation\<close>, \<open>date_conversion_failed\<close>, \<open>panValid\<close>,
  \<open>extraction.seller_pan\<close> and \<open>notes\<close>.
\<close>

definition pipeline_vatValidation ::
  "real option \<Rightarrow> real option \<Rightarrow> real option \<Rightarrow> real option \<Rightarrow> VatValidation" where
  "pipeline_vatValidation taxable_amount vat_amount vat_rate grand_total =
     (let vatRate = inferVATRate vat_amount taxable_amount vat_rate
      in validateVAT taxable_amount vat_amount grand_total vatRate)"

definition pipeline_flags ::
  "bool \<Rightarrow> VatValidation \<Rightarrow> bool \<Rightarrow> bool \<Rightarrow> jsstring option \<Rightarrow> review_note list
   \<Rightarrow> InvoiceValidationFlags" where
  "pipeline_flags missing vatValidation date_failed panValid seller_pan ns =
     \<lparr>missing_fields = missing,
      math_mismatch = vv_math_mismatch vatValidation,
      vat_inconsistent = vv_vat_inconsistent vatValidation,
      date_conversion_failed = date_failed,
      date_mismatch = False,
      duplicate_invoice = False,
      pan_invalid = (\<not> panValid \<and> \<not> falsy seller_pan),
      flag_notes = ns\<rparr>"

definition pipeline_canApprove :: "bool \<Rightarrow> VatValidation \<Rightarrow> bool \<Rightarrow> bool" where
  "pipeline_canApprove missing vatValidation date_failed =
     (\<not> missing \<and> \<not> vv_math_mismatch vatValidation \<and> \<not> date_failed)"

text \<open>
  The vendor name after \<open>normalizeString\<close> and \<open>toLowerCase\<close>, the value both merge-key
  functions start from.
\<close>

definition loweredVendor :: "jsstring option \<Rightarrow> jsstring" where
  "loweredVendor v = (case normalizeString v of None \<Rightarrow> [] | Some n \<Rightarrow> toLowerCase n)"

section \<open>Properties\<close>

lemmas str_defs = falsy_def u_def trim_def is_space_def is_control_def toLowerCase_def
  lower_unit_def is_alnum_def is_digit_def is_lower_alnum_hyphen_def nepali_digit_def
  endsWith_def merge_key_template_def

lemmas norm_defs = normalizeString_def convertNepaliDigits_def normalizeVendorName_def
  normalizeInvoiceNumber_def strip_suffix_def vendor_suffixes_def generateMergeKey_norm_def
  vendorNormalized_def invoiceNormalized_def generateMergeKey_def loweredVendor_def

lemmas parse_defs = parseBSDate_def parseADDate_def parseInt_def digits_value_def
  formatBSDate_def formatADDate_def numberToString_def padStart_def digits10.simps

subsection \<open>Days and dates of the Gregorian calendar\<close>

lemma DayFromYear_1970: "DayFromYear 1970 = 0"
  by (simp add: DayFromYear_def)

lemma DayFromYear_upper: "0 \<le> k \<Longrightarrow> DayFromYear (1970 + k) \<le> 366 * k"
proof (induction k rule: int_ge_induct)
  case base
  show ?case by (simp add: DayFromYear_1970)
next
  case (step i)
  have "DayFromYear (1970 + (i + 1)) = DayFromYear (1970 + i) + DaysInYear (1970 + i)"
    using DayFromYear_step[of "1970 + i"] by (simp add: add.assoc)
  moreover have "DaysInYear (1970 + i) \<le> 366" by (rule DaysInYear_bounds)
  moreover have "DayFromYear (1970 + i) \<le> 366 * i" by (rule step.IH)
  ultimately show ?case by (simp add: algebra_simps)
qed

lemma DayFromYear_lower: "k \<le> 0 \<Longrightarrow> DayFromYear (1970 + k) \<le> 365 * k"
proof (induction k rule: int_le_induct)
  case base
  show ?case by (simp add: DayFromYear_1970)
next
  case (step i)
  have "DayFromYear (1970 + (i - 1) + 1) = DayFromYear (1970 + (i - 1)) + DaysInYear (1970 + (i - 1))"
    by (rule DayFromYear_step)
  then have "DayFromYear (1970 + i) = DayFromYear (1970 + (i - 1)) + DaysInYear (1970 + (i - 1))"
    by simp
  moreover have "365 \<le> DaysInYear (1970 + (i - 1))" by (rule DaysInYear_bounds)
  moreover have "DayFromYear (1970 + i) \<le> 365 * i" by (rule step.IH)
  ultimately show ?case by (simp add: algebra_simps)
qed

lemma DayFromYear_mono: "y \<le> y' \<Longrightarrow> DayFromYear y \<le> DayFromYear y'"
proof (induction y' rule: int_ge_induct)
  case base
  show ?case by simp
next
  case (step i)
  then show ?case using DayFromYear_mono_step[of i] by linarith
qed

lemma year_search_correct:
  "DayFromYear y0 \<le> z \<Longrightarrow>
   DayFromYear (year_search z y0) \<le> z \<and> z < DayFromYear (year_search z y0 + 1)"
proof (induction z y0 rule: year_search.induct)
  case (1 z y)
  show ?case
  proof (cases "DayFromYear (y + 1) \<le> z")
    case True
    then show ?thesis using 1 by (simp add: year_search.simps[of z y])
  next
    case False
    then show ?thesis using 1 by (simp add: year_search.simps[of z y])
  qed
qed

lemma div_decomp:
  fixes z n :: int
  assumes "0 < n"
  shows "n * (z div n) \<le> z" "z < n * (z div n) + n"
proof -
  have "z = n * (z div n) + z mod n" by simp
  moreover have "0 \<le> z mod n" "z mod n < n" using assms by simp_all
  ultimately show "n * (z div n) \<le> z" "z < n * (z div n) + n" by linarith+
qed

lemma YearFromDay_bounds:
  "DayFromYear (YearFromDay z) \<le> z \<and> z < DayFromYear (YearFromDay z + 1)"
proof -
  have "DayFromYear (1970 + (if 0 \<le> z then z div 366 else z div 365 - 1)) \<le> z"
  proof (cases "0 \<le> z")
    case True
    then have "0 \<le> z div 366" by simp
    from DayFromYear_upper[OF this] have "DayFromYear (1970 + z div 366) \<le> 366 * (z div 366)" .
    moreover have "366 * (z div 366) \<le> z" by (rule div_decomp) simp
    ultimately show ?thesis using True by simp
  next
    case False
    have le: "365 * (z div 365) \<le> z" by (rule div_decomp) simp
    then have "z div 365 - 1 \<le> 0" using False by linarith
    from DayFromYear_lower[OF this]
    have "DayFromYear (1970 + (z div 365 - 1)) \<le> 365 * (z div 365 - 1)" .
    then show ?thesis using False le by simp
  qed
  then show ?thesis unfolding YearFromDay_def by (rule year_search_correct)
qed

lemma YearFromDay_unique:
  assumes "DayFromYear y \<le> z" "z < DayFromYear (y + 1)"
  shows "YearFromDay z = y"
proof (rule ccontr)
  assume ne: "YearFromDay z \<noteq> y"
  note b = YearFromDay_bounds[of z]
  show False
  proof (cases "YearFromDay z < y")
    case True
    then have "DayFromYear (YearFromDay z + 1) \<le> DayFromYear y"
      by (intro DayFromYear_mono) simp
    then show False using b assms by linarith
  next
    case False
    then have "y + 1 \<le> YearFromDay z" using ne by simp
    then have "DayFromYear (y + 1) \<le> DayFromYear (YearFromDay z)"
      by (rule DayFromYear_mono)
    then show False using b assms by linarith
  qed
qed

lemma days_before_0 [simp]: "days_before ls 0 = 0"
  by (simp add: days_before_def)

lemma days_before_Cons: "0 < k \<Longrightarrow> days_before (l # ls) k = l + days_before ls (k - 1)"
proof -
  assume "0 < k"
  then have "nat k = Suc (nat (k - 1))"
    by (simp add: Suc_nat_eq_nat_zadd1)
  then show ?thesis by (simp add: days_before_def)
qed

lemma sum_take_nonneg:
  "list_all (\<lambda>l. 0 < l) ls \<Longrightarrow> (0::int) \<le> sum_list (take j ls)"
proof (induction ls arbitrary: j)
  case Nil
  then show ?case by simp
next
  case (Cons l ls)
  then show ?case by (cases j) (auto simp: add_nonneg_nonneg less_imp_le)
qed

lemma days_before_nonneg:
  "list_all (\<lambda>l. 0 < l) ls \<Longrightarrow> 0 \<le> days_before ls k"
  unfolding days_before_def by (rule sum_take_nonneg)

lemma locate_sound:
  "list_all (\<lambda>l. 0 < l) ls \<Longrightarrow> 0 \<le> n \<Longrightarrow> n < sum_list ls \<Longrightarrow> locate ls n = (k, r) \<Longrightarrow>
   0 \<le> k \<and> nat k < length ls \<and> 0 \<le> r \<and> r < ls ! nat k \<and> days_before ls k + r = n"
proof (induction ls arbitrary: n k r)
  case Nil
  then show ?case by simp
next
  case (Cons l ls)
  show ?case
  proof (cases "n < l")
    case True
    then show ?thesis using Cons.prems by auto
  next
    case False
    obtain k' r' where kr: "locate ls (n - l) = (k', r')" by (cases "locate ls (n - l)")
    have k: "k = k' + 1" "r = r'" using Cons.prems(4) False kr by auto
    have "0 \<le> k' \<and> nat k' < length ls \<and> 0 \<le> r' \<and> r' < ls ! nat k' \<and> days_before ls k' + r' = n - l"
      using Cons.IH[OF _ _ _ kr] Cons.prems False by auto
    then show ?thesis using k by (auto simp: days_before_Cons nat_add_distrib)
  qed
qed

lemma locate_complete:
  "list_all (\<lambda>l. 0 < l) ls \<Longrightarrow> 0 \<le> k \<Longrightarrow> nat k < length ls \<Longrightarrow> 0 \<le> r \<Longrightarrow> r < ls ! nat k \<Longrightarrow>
   locate ls (days_before ls k + r) = (k, r)"
proof (induction ls arbitrary: k)
  case Nil
  then show ?case by simp
next
  case (Cons l ls)
  show ?case
  proof (cases "k = 0")
    case True
    then show ?thesis using Cons.prems by simp
  next
    case False
    then have pos: "0 < k" using Cons.prems by simp
    have nk: "nat k = Suc (nat (k - 1))" using pos by (simp add: Suc_nat_eq_nat_zadd1)
    have ih: "locate ls (days_before ls (k - 1) + r) = (k - 1, r)"
      using Cons.prems pos nk by (intro Cons.IH) auto
    have "0 \<le> days_before ls (k - 1)" using Cons.prems by (auto intro: days_before_nonneg)
    then have "\<not> (l + days_before ls (k - 1) + r < l)" using Cons.prems by simp
    then show ?thesis using ih pos by (simp add: days_before_Cons add.assoc)
  qed
qed

lemma days_before_bound:
  "list_all (\<lambda>l. 0 < l) ls \<Longrightarrow> 0 \<le> k \<Longrightarrow> nat k < length ls \<Longrightarrow>
   days_before ls k + ls ! nat k \<le> sum_list ls"
proof (induction ls arbitrary: k)
  case Nil
  then show ?case by simp
next
  case (Cons l ls)
  show ?case
  proof (cases "k = 0")
    case True
    have "0 \<le> sum_list ls" using Cons.prems(1) by (induction ls) auto
    then show ?thesis using True by simp
  next
    case False
    then have pos: "0 < k" using Cons.prems by simp
    have nk: "nat k = Suc (nat (k - 1))" using pos by (simp add: Suc_nat_eq_nat_zadd1)
    have "days_before ls (k - 1) + ls ! nat (k - 1) \<le> sum_list ls"
      using Cons.prems pos nk by (intro Cons.IH) auto
    then show ?thesis using pos nk by (simp add: days_before_Cons)
  qed
qed


lemma month_lengths_facts:
  "length (month_lengths y) = 12"
  "list_all (\<lambda>l. 0 < l) (month_lengths y)"
  "sum_list (month_lengths y) = DaysInYear y"
  by (simp_all add: month_lengths_def DaysInYear_def)

lemma civil_sound:
  assumes "civil_of_day z = (y, m, d)"
  shows "0 \<le> m \<and> m < 12 \<and> 1 \<le> d \<and> d \<le> month_lengths y ! nat m \<and> MakeDay y m d = z
         \<and> DayFromYear y \<le> z \<and> z < DayFromYear (y + 1)"
proof -
  obtain k r where kr: "locate (month_lengths (YearFromDay z)) (z - DayFromYear (YearFromDay z)) = (k, r)"
    by (cases "locate (month_lengths (YearFromDay z)) (z - DayFromYear (YearFromDay z))")
  have y: "y = YearFromDay z" and m: "m = k" and d: "d = r + 1"
    using assms kr by (simp_all add: civil_of_day_def Let_def)
  note b = YearFromDay_bounds[of z]
  have lt: "z - DayFromYear y < sum_list (month_lengths y)"
    using b DayFromYear_step[of y] by (simp add: month_lengths_facts y)
  have ge: "0 \<le> z - DayFromYear y"
    using b by (simp add: y)
  from locate_sound[OF month_lengths_facts(2) ge lt kr[folded y]]
  have s: "0 \<le> k" "nat k < length (month_lengths y)" "0 \<le> r" "r < month_lengths y ! nat k"
          "days_before (month_lengths y) k + r = z - DayFromYear y"
    by simp_all
  have k12: "k < 12" using s(2) s(1) by (simp add: month_lengths_facts)
  then have "k div 12 = 0" "k mod 12 = k" using s(1) by simp_all
  then have "MakeDay y k (r + 1) = z"
    using s(5) by (simp add: MakeDay_def)
  then show ?thesis using s k12 b by (simp add: m d y)
qed

lemma civil_complete:
  assumes "0 \<le> m" "m < 12" "1 \<le> d" "d \<le> month_lengths y ! nat m"
  shows "civil_of_day (MakeDay y m d) = (y, m, d)"
proof -
  have dm: "m div 12 = 0" "m mod 12 = m" using assms by simp_all
  have z: "MakeDay y m d = DayFromYear y + (days_before (month_lengths y) m + (d - 1))"
    by (simp add: MakeDay_def dm)
  have len: "nat m < length (month_lengths y)"
    using assms by (simp add: month_lengths_facts)
  have nn: "0 \<le> days_before (month_lengths y) m"
    by (rule days_before_nonneg) (rule month_lengths_facts)
  have ub: "days_before (month_lengths y) m + month_lengths y ! nat m \<le> DaysInYear y"
    using days_before_bound[OF month_lengths_facts(2) assms(1) len]
    by (simp add: month_lengths_facts)
  have yr: "YearFromDay (MakeDay y m d) = y"
  proof (rule YearFromDay_unique)
    show "DayFromYear y \<le> MakeDay y m d" unfolding z using nn assms by simp
    show "MakeDay y m d < DayFromYear (y + 1)"
      unfolding z DayFromYear_step using ub assms by simp
  qed
  have "locate (month_lengths y) (days_before (month_lengths y) m + (d - 1)) = (m, d - 1)"
    using assms len by (intro locate_complete month_lengths_facts) simp_all
  then show ?thesis
    by (simp add: civil_of_day_def yr Let_def) (simp add: z)
qed


subsection \<open>Round trip of the two conversions\<close>

text \<open>
  With a table-driven package the round trip holds from every Bikram Sambat input, and
  from every Gregorian input that is a date of the calendar.
\<close>

lemma table_index:
  assumes "0 \<le> m" "m < 12"
  shows "(12 * q + m) div 12 = q" "(12 * q + m) mod 12 = (m::int)"
  using assms by simp_all

lemma civil_year_ge:
  assumes "civil_of_day z = (y, m, d)" "DayFromYear 100 \<le> z"
  shows "100 \<le> y"
proof (rule ccontr)
  assume "\<not> 100 \<le> y"
  then have "y + 1 \<le> 100" by simp
  then have "DayFromYear (y + 1) \<le> DayFromYear 100" by (rule DayFromYear_mono)
  then show False using civil_sound[OF assms(1)] assms(2) by linarith
qed

lemma DayFromYear_100: "- 100000000 \<le> DayFromYear 100"
  by (simp add: DayFromYear_def)

lemma new_Date_plain:
  assumes "100 \<le> y" "\<bar>MakeDay y m d\<bar> \<le> 100000000"
  shows "new_Date y m d = (case civil_of_day (MakeDay y m d) of (gy, gm, gd) \<Rightarrow> JSDate gy gm gd)"
  using assms by (simp add: new_Date_def Let_def)

lemma table_bs_roundtrip:
  assumes wf: "wf_table T"
  shows "bs_roundtrip (tableLib T) b"
proof (cases "bsToAd (tableLib T) b")
  case None
  then show ?thesis by (simp add: bs_roundtrip_def)
next
  case (Some a)
  define Y where "Y = bs_year b"
  define m where "m = bs_month b - 1"
  define D where "D = bs_day b"
  define k where "k = 12 * (Y - first_year T) + m"
  define z where "z = first_day T + days_before (month_days T) k + D - 1"
  have pos: "list_all (\<lambda>l. 0 < l) (month_days T)"
    and lo: "DayFromYear 100 \<le> first_day T"
    and hi: "first_day T + sum_list (month_days T) \<le> 100000000"
    using wf by (simp_all add: wf_table_def)
  have tn: "table_new T Y m D \<noteq> None"
    using Some by (auto simp: bsToAd_def tableLib_def Y_def m_def D_def split: option.splits)
  then have v: "first_year T \<le> Y" "0 \<le> m" "m < 12" "k < int (length (month_days T))"
                "1 \<le> D" "D \<le> month_days T ! nat k"
    by (auto simp: table_new_def Let_def k_def split: if_splits)
  have k0: "0 \<le> k" using v by (simp add: k_def)
  have kl: "nat k < length (month_days T)" using v k0 by simp
  obtain gy gm gd where c: "civil_of_day z = (gy, gm, gd)" by (cases "civil_of_day z") auto
  have tnew: "table_new T Y m D =
              Some \<lparr>getBS = \<lparr>np_year = Y, np_month = m, np_date = D\<rparr>,
                    getAD = \<lparr>np_year = gy, np_month = gm, np_date = gd\<rparr>\<rparr>"
    unfolding table_new_def Let_def k_def[symmetric] z_def[symmetric] using v c by simp
  have a: "a = \<lparr>ad_year = gy, ad_month = gm + 1, ad_day = gd\<rparr>"
    using Some tnew by (simp add: bsToAd_def tableLib_def Y_def m_def D_def)
  note cs = civil_sound[OF c]
  have nn: "0 \<le> days_before (month_days T) k" by (rule days_before_nonneg[OF pos])
  have ub: "days_before (month_days T) k + month_days T ! nat k \<le> sum_list (month_days T)"
    by (rule days_before_bound[OF pos k0 kl])
  have zlo: "first_day T \<le> z" using nn v by (simp add: z_def)
  have zhi: "z < first_day T + sum_list (month_days T)" using ub v by (simp add: z_def)
  have gy: "100 \<le> gy" using civil_year_ge[OF c] lo zlo by simp
  have absz: "\<bar>MakeDay gy gm gd\<bar> \<le> 100000000"
    using cs zlo zhi lo hi DayFromYear_100 by simp
  have nd: "new_Date gy gm gd = JSDate gy gm gd"
    using new_Date_plain[OF gy absz] cs c by simp
  have loc: "locate (month_days T) (z - first_day T) = (k, D - 1)"
  proof -
    have "z - first_day T = days_before (month_days T) k + (D - 1)" by (simp add: z_def)
    moreover have "locate (month_days T) (days_before (month_days T) k + (D - 1)) = (k, D - 1)"
      using v by (intro locate_complete pos k0 kl) simp_all
    ultimately show ?thesis by simp
  qed
  have kd: "k div 12 = Y - first_year T" "k mod 12 = m"
    unfolding k_def by (rule table_index[OF v(2) v(3)])+
  have tod: "table_of_Date T (JSDate gy gm gd) =
             Some \<lparr>getBS = \<lparr>np_year = Y, np_month = m, np_date = D\<rparr>,
                   getAD = \<lparr>np_year = gy, np_month = gm, np_date = gd\<rparr>\<rparr>"
    using cs zlo zhi loc kd by (simp add: table_of_Date_def Let_def)
  have "adToBs (tableLib T) a = Some \<lparr>bs_year = Y, bs_month = m + 1, bs_day = D\<rparr>"
    by (simp add: adToBs_def a nd tableLib_def tod)
  also have "\<lparr>bs_year = Y, bs_month = m + 1, bs_day = D\<rparr> = b"
    by (simp add: Y_def m_def D_def)
  finally show ?thesis using Some by (simp add: bs_roundtrip_def)
qed

lemma table_ad_roundtrip:
  assumes wf: "wf_table T" and va: "valid_ad a"
  shows "ad_roundtrip (tableLib T) a"
proof (cases "adToBs (tableLib T) a")
  case None
  then show ?thesis by (simp add: ad_roundtrip_def)
next
  case (Some b)
  define y where "y = ad_year a"
  define m where "m = ad_month a - 1"
  define d where "d = ad_day a"
  define z where "z = MakeDay y m d"
  have pos: "list_all (\<lambda>l. 0 < l) (month_days T)"
    using wf by (simp add: wf_table_def)
  have v: "100 \<le> y" "0 \<le> m" "m < 12" "1 \<le> d" "d \<le> month_lengths y ! nat m"
    using va by (simp_all add: valid_ad_def y_def m_def d_def)
  have c: "civil_of_day z = (y, m, d)"
    unfolding z_def using v by (intro civil_complete)
  have nd: "new_Date y m d = JSDate y m d"
  proof (cases "\<bar>z\<bar> > 100000000")
    case True
    then have "new_Date y m d = InvalidDate" using v by (simp add: new_Date_def Let_def z_def)
    then show ?thesis using Some
      by (simp add: adToBs_def y_def m_def d_def tableLib_def table_of_Date_def)
  next
    case False
    then show ?thesis using v c by (simp add: new_Date_def Let_def z_def)
  qed
  define n where "n = z - first_day T"
  have tod: "table_of_Date T (JSDate y m d) \<noteq> None"
    using Some nd by (auto simp: adToBs_def y_def m_def d_def tableLib_def split: option.splits)
  then have n: "0 \<le> n" "n < sum_list (month_days T)"
    by (auto simp: table_of_Date_def Let_def n_def z_def split: if_splits)
  obtain k r where kr: "locate (month_days T) n = (k, r)" by (cases "locate (month_days T) n")
  from locate_sound[OF pos n kr]
  have s: "0 \<le> k" "nat k < length (month_days T)" "0 \<le> r" "r < month_days T ! nat k"
          "days_before (month_days T) k + r = n"
    by simp_all
  have b: "b = \<lparr>bs_year = first_year T + k div 12, bs_month = k mod 12 + 1, bs_day = r + 1\<rparr>"
    using Some nd n kr
    by (simp add: adToBs_def y_def m_def d_def tableLib_def table_of_Date_def Let_def
                  n_def z_def)
  have kk: "12 * (k div 12) + k mod 12 = k" by simp
  have kdiv: "0 \<le> k div 12" using s(1) by (simp add: pos_imp_zdiv_nonneg_iff)
  have zz: "first_day T + days_before (month_days T) k + (r + 1) - 1 = z"
    using s(5) by (simp add: n_def)
  have "table_new T (first_year T + k div 12) (k mod 12) (r + 1) =
        Some \<lparr>getBS = \<lparr>np_year = first_year T + k div 12, np_month = k mod 12, np_date = r + 1\<rparr>,
              getAD = \<lparr>np_year = y, np_month = m, np_date = d\<rparr>\<rparr>"
  proof -
    have km: "\<not> k mod 12 < 0" "\<not> 12 \<le> k mod 12"
      using pos_mod_sign[of 12 k] pos_mod_bound[of 12 k] by linarith+
    have kl: "k < int (length (month_days T))" using s(1,2) by linarith
    show ?thesis
      unfolding table_new_def Let_def using s kdiv km kl by (simp add: kk zz c)
  qed
  then have "bsToAd (tableLib T) b = Some \<lparr>ad_year = y, ad_month = m + 1, ad_day = d\<rparr>"
    by (simp add: bsToAd_def b tableLib_def)
  also have "\<lparr>ad_year = y, ad_month = m + 1, ad_day = d\<rparr> = a"
    by (simp add: y_def m_def d_def)
  finally show ?thesis using Some by (simp add: ad_roundtrip_def)
qed


lemma example_table_wf: "wf_table example_table"
  by (simp add: wf_table_def example_table_def DayFromYear_def)

lemma example_reference:
  "bsToAd (tableLib example_table) \<lparr>bs_year = 2082, bs_month = 9, bs_day = 7\<rparr>
     = Some \<lparr>ad_year = 2025, ad_month = 12, ad_day = 22\<rparr>"
  "adToBs (tableLib example_table) \<lparr>ad_year = 2025, ad_month = 12, ad_day = 22\<rparr>
     = Some \<lparr>bs_year = 2082, bs_month = 9, bs_day = 7\<rparr>"
  by code_simp+

lemma example_feb_30:
  "adToBs (tableLib example_table) \<lparr>ad_year = 2026, ad_month = 2, ad_day = 30\<rparr>
     = Some \<lparr>bs_year = 2082, bs_month = 11, bs_day = 18\<rparr>"
  "bsToAd (tableLib example_table) \<lparr>bs_year = 2082, bs_month = 11, bs_day = 18\<rparr>
     = Some \<lparr>ad_year = 2026, ad_month = 3, ad_day = 2\<rparr>"
  by code_simp+

lemma new_Date_feb_30: "new_Date 2026 1 30 = JSDate 2026 2 2"
  by code_simp

lemma new_Date_mar_2: "new_Date 2026 2 2 = JSDate 2026 2 2"
  by code_simp

lemma adToBs_feb_30:
  "adToBs np \<lparr>ad_year = 2026, ad_month = 2, ad_day = 30\<rparr>
     = adToBs np \<lparr>ad_year = 2026, ad_month = 3, ad_day = 2\<rparr>"
  by (simp add: adToBs_def new_Date_feb_30 new_Date_mar_2)

text \<open>
  C1. The claim asks, for every Gregorian input on which \<open>adToBs\<close> returns a date, that
  \<open>bsToAd\<close> gives the input back. \<open>adToBs\<close> hands 30 February 2026 to the Date
  constructor, which makes it 2 March 2026, so the two inputs are converted alike:
  whatever the package does, the round trip cannot hold at both inputs once 2 March 2026
  is converted at all. The round trip does hold for dates of the calendar
  (\<open>table_bs_roundtrip\<close>, \<open>table_ad_roundtrip\<close>).
\<close>

theorem C1_roundtrip_rollover:
  "\<not> (ad_roundtrip np \<lparr>ad_year = 2026, ad_month = 2, ad_day = 30\<rparr>
       \<and> ad_roundtrip np \<lparr>ad_year = 2026, ad_month = 3, ad_day = 2\<rparr>
       \<and> adToBs np \<lparr>ad_year = 2026, ad_month = 3, ad_day = 2\<rparr> \<noteq> None)"
  by (auto simp: ad_roundtrip_def adToBs_feb_30 split: option.splits)

subsection \<open>Merge key\<close>

text \<open>
  C2. Both \<open>generateMergeKey\<close> functions return null when one of the four inputs is
  null or empty or when the vendor or the invoice number normalizes to the empty string;
  a key they return is the workspace, the normalized vendor, the normalized invoice
  number and the date, all four non-empty, joined by vertical bars in this order.
\<close>

theorem C2_generateMergeKey:
  "(falsy ws \<or> falsy v \<or> falsy i \<or> falsy d \<or> vendorNormalized v = []
      \<or> invoiceNormalized i = []
      \<longrightarrow> generateMergeKey ws v i d = None)
   \<and> (falsy ws \<or> falsy v \<or> falsy i \<or> falsy d \<or> falsy (normalizeVendorName v)
        \<or> falsy (normalizeInvoiceNumber i)
      \<longrightarrow> generateMergeKey_norm ws v i d = None)
   \<and> (\<forall>k. generateMergeKey ws v i d = Some k \<longrightarrow>
         (\<exists>w bd. ws = Some w \<and> d = Some bd \<and> w \<noteq> [] \<and> vendorNormalized v \<noteq> []
            \<and> invoiceNormalized i \<noteq> [] \<and> bd \<noteq> []
            \<and> k = w @ [124] @ vendorNormalized v @ [124] @ invoiceNormalized i @ [124] @ bd))
   \<and> (\<forall>k. generateMergeKey_norm ws v i d = Some k \<longrightarrow>
         (\<exists>w vn inn bd. ws = Some w \<and> d = Some bd \<and> normalizeVendorName v = Some vn
            \<and> normalizeInvoiceNumber i = Some inn
            \<and> w \<noteq> [] \<and> vn \<noteq> [] \<and> inn \<noteq> [] \<and> bd \<noteq> []
            \<and> k = w @ [124] @ vn @ [124] @ inn @ [124] @ bd))"
proof (intro conjI allI impI)
  assume "falsy ws \<or> falsy v \<or> falsy i \<or> falsy d \<or> vendorNormalized v = []
      \<or> invoiceNormalized i = []"
  then show "generateMergeKey ws v i d = None"
    by (auto simp: generateMergeKey_def)
next
  assume "falsy ws \<or> falsy v \<or> falsy i \<or> falsy d \<or> falsy (normalizeVendorName v)
        \<or> falsy (normalizeInvoiceNumber i)"
  then show "generateMergeKey_norm ws v i d = None"
    by (auto simp: generateMergeKey_norm_def Let_def)
next
  fix k assume "generateMergeKey ws v i d = Some k"
  then show "\<exists>w bd. ws = Some w \<and> d = Some bd \<and> w \<noteq> [] \<and> vendorNormalized v \<noteq> []
            \<and> invoiceNormalized i \<noteq> [] \<and> bd \<noteq> []
            \<and> k = w @ [124] @ vendorNormalized v @ [124] @ invoiceNormalized i @ [124] @ bd"
    by (auto simp: generateMergeKey_def falsy_def merge_key_template_def
             split: if_splits option.splits)
next
  fix k assume "generateMergeKey_norm ws v i d = Some k"
  then show "\<exists>w vn inn bd. ws = Some w \<and> d = Some bd \<and> normalizeVendorName v = Some vn
            \<and> normalizeInvoiceNumber i = Some inn
            \<and> w \<noteq> [] \<and> vn \<noteq> [] \<and> inn \<noteq> [] \<and> bd \<noteq> []
            \<and> k = w @ [124] @ vn @ [124] @ inn @ [124] @ bd"
    by (auto simp: generateMergeKey_norm_def falsy_def merge_key_template_def Let_def
             split: if_splits option.splits)
qed

lemma key_processing_acme:
  "generateMergeKey (Some (u ''ws1'')) (Some (u ''Acme Pvt Ltd'')) (Some (u ''INV-001''))
     (Some (u ''2082/09/07'')) = Some (u ''ws1|acme pvt ltd|inv001|2082/09/07'')"
  by (simp add: str_defs norm_defs)

lemma key_normalization_acme:
  "generateMergeKey_norm (Some (u ''ws1'')) (Some (u ''Acme Pvt Ltd'')) (Some (u ''INV-001''))
     (Some (u ''2082/09/07'')) = Some (u ''ws1|acme|inv-001|2082/09/07'')"
  by (simp add: str_defs norm_defs)

theorem C2_generateMergeKey_witness:
  "generateMergeKey (Some (u ''ws1'')) None (Some (u ''INV-001'')) (Some (u ''2082/09/07''))
     = None
   \<and> generateMergeKey_norm (Some (u ''ws1'')) (Some (u ''Ltd'')) (Some (u ''INV-001''))
       (Some (u ''2082/09/07'')) = None
   \<and> (\<exists>w bd. Some (u ''ws1'') = Some w \<and> Some (u ''2082/09/07'') = Some bd \<and> w \<noteq> []
         \<and> vendorNormalized (Some (u ''Acme Pvt Ltd'')) \<noteq> []
         \<and> invoiceNormalized (Some (u ''INV-001'')) \<noteq> [] \<and> bd \<noteq> []
         \<and> u ''ws1|acme pvt ltd|inv001|2082/09/07''
             = w @ [124] @ vendorNormalized (Some (u ''Acme Pvt Ltd'')) @ [124]
                 @ invoiceNormalized (Some (u ''INV-001'')) @ [124] @ bd)
   \<and> (\<exists>w vn inn bd. Some (u ''ws1'') = Some w \<and> Some (u ''2082/09/07'') = Some bd
         \<and> normalizeVendorName (Some (u ''Acme Pvt Ltd'')) = Some vn
         \<and> normalizeInvoiceNumber (Some (u ''INV-001'')) = Some inn
         \<and> w \<noteq> [] \<and> vn \<noteq> [] \<and> inn \<noteq> [] \<and> bd \<noteq> []
         \<and> u ''ws1|acme|inv-001|2082/09/07'' = w @ [124] @ vn @ [124] @ inn @ [124] @ bd)"
proof -
  have h1: "falsy None"
    by (simp add: falsy_def)
  have h2: "falsy (normalizeVendorName (Some (u ''Ltd'')))"
    by (simp add: str_defs norm_defs)
  note a = C2_generateMergeKey [of "Some (u ''ws1'')" None "Some (u ''INV-001'')"
             "Some (u ''2082/09/07'')", THEN conjunct1]
  note b = C2_generateMergeKey [of "Some (u ''ws1'')" "Some (u ''Ltd'')" "Some (u ''INV-001'')"
             "Some (u ''2082/09/07'')", THEN conjunct2, THEN conjunct1]
  note c = C2_generateMergeKey [of "Some (u ''ws1'')" "Some (u ''Acme Pvt Ltd'')"
             "Some (u ''INV-001'')" "Some (u ''2082/09/07'')",
             THEN conjunct2, THEN conjunct2]
  have r1: "generateMergeKey (Some (u ''ws1'')) None (Some (u ''INV-001''))
              (Some (u ''2082/09/07'')) = None"
    using a h1 by blast
  have r2: "generateMergeKey_norm (Some (u ''ws1'')) (Some (u ''Ltd'')) (Some (u ''INV-001''))
              (Some (u ''2082/09/07'')) = None"
    using b h2 by blast
  from c [THEN conjunct1, rule_format, OF key_processing_acme]
       c [THEN conjunct2, rule_format, OF key_normalization_acme] r1 r2
  show ?thesis by blast
qed

text \<open>Where the two merge keys coincide.\<close>

lemma foldl_strip_suffix_none:
  "list_all (\<lambda>s. \<not> endsWith n s) sfx \<Longrightarrow> foldl strip_suffix n sfx = n"
  by (induction sfx) (simp_all add: strip_suffix_def)

lemma lower_class:
  "c \<noteq> 45 \<Longrightarrow> is_lower_alnum_hyphen (lower_unit c) = is_alnum c"
  by (auto simp: is_lower_alnum_hyphen_def lower_unit_def is_alnum_def is_digit_def)

lemma filter_lower_commute:
  "45 \<notin> set x \<Longrightarrow>
   filter is_lower_alnum_hyphen (toLowerCase x) = toLowerCase (filter is_alnum x)"
  by (induction x) (auto simp: toLowerCase_def lower_class)

lemma invoice_agree:
  assumes "45 \<notin> set (the i)"
  shows "normalizeInvoiceNumber i =
         (if invoiceNormalized i = [] then None else Some (invoiceNormalized i))"
proof (cases "falsy i")
  case True
  then show ?thesis
    by (simp add: normalizeInvoiceNumber_def invoiceNormalized_def convertNepaliDigits_def)
next
  case False
  have "45 \<notin> set (map nepali_digit (the i))"
    using assms by (auto simp: nepali_digit_def split: if_splits)
  then have eq: "filter is_lower_alnum_hyphen (toLowerCase (map nepali_digit (the i))) =
                 toLowerCase (filter is_alnum (map nepali_digit (the i)))"
    by (rule filter_lower_commute)
  show ?thesis using False
    by (simp add: normalizeInvoiceNumber_def invoiceNormalized_def convertNepaliDigits_def
                  Let_def eq) (simp add: falsy_def toLowerCase_def)
qed

lemma vendor_agree:
  assumes "trim (loweredVendor v) = loweredVendor v"
      and "list_all (\<lambda>s. \<not> endsWith (loweredVendor v) s) vendor_suffixes"
  shows "normalizeVendorName v =
         (if vendorNormalized v = [] then None else Some (vendorNormalized v))"
proof (cases "falsy v")
  case True
  then show ?thesis
    by (simp add: normalizeVendorName_def vendorNormalized_def normalizeString_def)
next
  case False
  then obtain n where n: "normalizeString v = Some n"
    by (auto simp: normalizeString_def)
  have lv: "loweredVendor v = toLowerCase n"
    by (simp add: loweredVendor_def n)
  have vn: "vendorNormalized v = toLowerCase n"
    using assms(1) by (simp add: vendorNormalized_def n lv)
  have "foldl strip_suffix (toLowerCase n) vendor_suffixes = toLowerCase n"
    using assms(2) by (simp add: foldl_strip_suffix_none lv)
  then show ?thesis using False
    by (simp add: normalizeVendorName_def n vn Let_def falsy_def toLowerCase_def)
qed

text \<open>
  C10 (as amended). The two \<open>generateMergeKey\<close> functions are not equivalent: the
  processing module keeps a corporate suffix of the vendor and removes hyphens from the
  invoice number, the normalization module strips the suffix and keeps the hyphens. They
  return the same result when the invoice number consists of Basic Latin characters and
  Devanagari digits without a hyphen, and the vendor name, after \<open>normalizeString\<close> and
  lowercasing, has no whitespace at either end and ends with none of the listed suffixes.
\<close>

theorem C10_merge_keys_agree:
  assumes "list_all (\<lambda>c. c \<noteq> 45 \<and> (c < 128 \<or> (2406 \<le> c \<and> c \<le> 2415))) (the i)"
      and "trim (loweredVendor v) = loweredVendor v"
      and "list_all (\<lambda>s. \<not> endsWith (loweredVendor v) s) vendor_suffixes"
  shows "generateMergeKey ws v i d = generateMergeKey_norm ws v i d"
proof -
  have "45 \<notin> set (the i)"
    using assms(1) by (auto simp: list_all_iff)
  from invoice_agree [OF this] vendor_agree [OF assms(2,3)] show ?thesis
    by (simp add: generateMergeKey_def generateMergeKey_norm_def Let_def falsy_def)
qed

theorem C10_merge_keys_agree_witness:
  "generateMergeKey (Some (u ''ws1'')) (Some (u ''Acme Traders'')) (Some (u ''INV001''))
     (Some (u ''2082/09/07''))
   = generateMergeKey_norm (Some (u ''ws1'')) (Some (u ''Acme Traders'')) (Some (u ''INV001''))
       (Some (u ''2082/09/07''))
   \<and> generateMergeKey (Some (u ''ws1'')) (Some (u ''Acme Traders'')) (Some (u ''INV001''))
       (Some (u ''2082/09/07'')) = Some (u ''ws1|acme traders|inv001|2082/09/07'')"
proof -
  have h1: "list_all (\<lambda>c. c \<noteq> 45 \<and> (c < 128 \<or> (2406 \<le> c \<and> c \<le> 2415)))
              (the (Some (u ''INV001'')))"
    by (simp add: u_def)
  have lv: "loweredVendor (Some (u ''Acme Traders'')) = u ''acme traders''"
    by (simp add: str_defs norm_defs)
  have h2: "trim (loweredVendor (Some (u ''Acme Traders'')))
              = loweredVendor (Some (u ''Acme Traders''))"
    unfolding lv by (simp add: str_defs)
  have h3: "list_all (\<lambda>s. \<not> endsWith (loweredVendor (Some (u ''Acme Traders''))) s)
              vendor_suffixes"
    unfolding lv by (simp add: str_defs vendor_suffixes_def)
  have k: "generateMergeKey (Some (u ''ws1'')) (Some (u ''Acme Traders'')) (Some (u ''INV001''))
             (Some (u ''2082/09/07'')) = Some (u ''ws1|acme traders|inv001|2082/09/07'')"
    by (simp add: str_defs norm_defs)
  from C10_merge_keys_agree [OF h1 h2 h3] k show ?thesis
    by simp
qed

theorem C10_merge_keys_differ:
  "generateMergeKey (Some (u ''ws1'')) (Some (u ''Acme Pvt Ltd'')) (Some (u ''INV-001''))
     (Some (u ''2082/09/07''))
   \<noteq> generateMergeKey_norm (Some (u ''ws1'')) (Some (u ''Acme Pvt Ltd''))
       (Some (u ''INV-001'')) (Some (u ''2082/09/07''))"
  by (simp add: key_processing_acme key_normalization_acme) (simp add: u_def)

subsection \<open>Arithmetic check\<close>

lemma checkMathMismatch_iff:
  "mismatch (checkMathMismatch t v g AMOUNT_TOLERANCE) =
     (case g of None \<Rightarrow> False | Some tot \<Rightarrow> \<bar>or_zero t + or_zero v - tot\<bar> > 2)"
  by (simp add: checkMathMismatch_def AMOUNT_TOLERANCE_def Let_def split: option.splits)

lemma validateVAT_math_iff:
  "vv_math_mismatch (validateVAT t v g r) = (\<bar>or_zero t + or_zero v - or_zero g\<bar> > 2)"
  by (simp add: validateVAT_def Let_def)

text \<open>
  C3. The standalone check reports no mismatch when the grand total is absent, but the
  pipeline's \<open>validateVAT\<close> replaces an absent total by 0 and reports a mismatch for
  taxable 1000, VAT 130 and no total, also as step 4 of the pipeline calls it.
\<close>

theorem C3_validateVAT_absent_total:
  "mismatch (checkMathMismatch (Some 1000) (Some 130) None AMOUNT_TOLERANCE) = False
   \<and> vv_math_mismatch (validateVAT (Some 1000) (Some 130) None 13) = True
   \<and> vv_math_mismatch (pipeline_vatValidation (Some 1000) (Some 130) None None) = True"
  by (simp add: checkMathMismatch_def validateVAT_def pipeline_vatValidation_def
                or_zero_def falsy_num_def Let_def)

subsection \<open>Approval gate\<close>

text \<open>
  C4. \<open>canAutoApprove\<close> grants approval exactly when \<open>missing_fields\<close>,
  \<open>math_mismatch\<close> and \<open>date_conversion_failed\<close> are all false, and changing
  \<open>vat_inconsistent\<close> and \<open>pan_invalid\<close> does not change its answer. The pipeline's
  \<open>can_approve\<close> is \<open>canAutoApprove\<close> of the flags it builds, and does not depend on
  the VAT consistency result either.
\<close>

theorem C4_approval_gate:
  "canAutoApprove f =
     (\<not> missing_fields f \<and> \<not> math_mismatch f \<and> \<not> date_conversion_failed f)
   \<and> canAutoApprove (f\<lparr>vat_inconsistent := a, pan_invalid := b\<rparr>) = canAutoApprove f
   \<and> pipeline_canApprove m vv df = canAutoApprove (pipeline_flags m vv df pv pan ns)
   \<and> pipeline_canApprove m (vv\<lparr>vv_vat_inconsistent := a\<rparr>) df = pipeline_canApprove m vv df"
  by (simp add: canAutoApprove_def pipeline_canApprove_def pipeline_flags_def)

subsection \<open>VAT rate inference\<close>

text \<open>
  C5. \<open>inferVatRate\<close> returns the explicit rate when it is 0 or 13; otherwise 0 when
  the VAT amount is null or zero; otherwise 13, whether or not the implied rate is within
  one point of 13. The processing module's \<open>inferVATRate\<close> is the same function with
  its first two parameters exchanged, and taxable 1000 with VAT 130 and no explicit rate
  gives 13.
\<close>

theorem C5_inferVatRate:
  "inferVatRate t v e =
     (if e = Some 0 \<or> e = Some 13 then the e
      else if v = None \<or> v = Some 0 then 0 else 13)
   \<and> inferVATRate v t e = inferVatRate t v e
   \<and> inferVatRate (Some 1000) (Some 130) None = 13"
  by (auto simp: inferVatRate_def inferVATRate_def VALID_VAT_RATES_def falsy_num_def
           split: option.splits)

subsection \<open>VAT consistency check\<close>

lemma checkVatInconsistent_iff:
  "inconsistent (checkVatInconsistent t v r AMOUNT_TOLERANCE) =
     (case (t, v, r) of
        (Some taxable, Some vat, Some rate) \<Rightarrow>
           rate \<noteq> 0 \<and> taxable \<noteq> 0 \<and> \<bar>taxable * (rate / 100) - vat\<bar> > 2
      | _ \<Rightarrow> False)"
  by (simp add: checkVatInconsistent_def AMOUNT_TOLERANCE_def falsy_num_def Let_def
           split: option.splits)

lemma validateVAT_vat_iff:
  "vv_vat_inconsistent (validateVAT t v g r) =
     (r > 0 \<and> or_zero t > 0 \<and> \<bar>or_zero t * (r / 100) - or_zero v\<bar> > 2)"
  by (simp add: validateVAT_def Let_def)

lemma checkVatInconsistent_negative_taxable:
  "inconsistent (checkVatInconsistent (Some (- 1000)) (Some 130) (Some 13) AMOUNT_TOLERANCE)"
  by (simp add: checkVatInconsistent_def falsy_num_def Let_def AMOUNT_TOLERANCE_def)

text \<open>
  C6. The standalone check reports no inconsistency when the VAT amount is absent, but
  the pipeline's \<open>validateVAT\<close> replaces an absent VAT amount by 0 and reports an
  inconsistency for taxable 1000 at rate 13 with no VAT amount, also as step 4 of the
  pipeline calls it with the explicit rate 13.
\<close>

theorem C6_validateVAT_absent_vat:
  "inconsistent (checkVatInconsistent (Some 1000) None (Some 13) AMOUNT_TOLERANCE) = False
   \<and> vv_vat_inconsistent (validateVAT (Some 1000) None (Some 1000) 13) = True
   \<and> vv_vat_inconsistent (pipeline_vatValidation (Some 1000) None (Some 13) (Some 1000))
       = True"
  by (simp add: checkVatInconsistent_def validateVAT_def pipeline_vatValidation_def
                inferVATRate_def or_zero_def falsy_num_def Let_def)

subsection \<open>Invalid days\<close>

text \<open>
  A day past the end of its month is the same day to \<open>adToBs\<close> as the day that many
  days into the next month.
\<close>

lemma days_before_Suc:
  assumes "0 \<le> k" "nat k < length ls"
  shows "days_before ls (k + 1) = days_before ls k + ls ! nat k"
proof -
  have "nat (k + 1) = Suc (nat k)" using assms by simp
  then show ?thesis using assms by (simp add: days_before_def take_Suc_conv_app_nth)
qed

lemma MakeDay_rollover:
  assumes "1 \<le> m" "m \<le> 11"
  shows "MakeDay y (m - 1) d = MakeDay y m (d - month_lengths y ! nat (m - 1))"
proof -
  have a: "(m - 1) div 12 = 0" "(m - 1) mod 12 = m - 1" "m div 12 = 0" "m mod 12 = m"
    using assms by simp_all
  have "days_before (month_lengths y) (m - 1 + 1)
        = days_before (month_lengths y) (m - 1) + month_lengths y ! nat (m - 1)"
    using assms by (intro days_before_Suc) (simp_all add: month_lengths_def)
  then have "days_before (month_lengths y) m
        = days_before (month_lengths y) (m - 1) + month_lengths y ! nat (m - 1)"
    by simp
  then show ?thesis by (simp add: MakeDay_def a)
qed

lemma adToBs_rollover:
  assumes "100 \<le> y" "1 \<le> m" "m \<le> 11"
  shows "adToBs np \<lparr>ad_year = y, ad_month = m, ad_day = d\<rparr>
         = adToBs np \<lparr>ad_year = y, ad_month = m + 1,
                      ad_day = d - month_lengths y ! nat (m - 1)\<rparr>"
  using MakeDay_rollover[OF assms(2,3), of y d] assms(1)
  by (simp add: adToBs_def new_Date_def Let_def)

lemma parse_feb_30:
  "parseADDate (u ''2026-02-30'') = Some \<lparr>ad_year = 2026, ad_month = 2, ad_day = 30\<rparr>"
  by (simp add: parse_defs str_defs)

text \<open>
  C7. \<open>adToBs\<close> does not return null for a day that its month does not have: the
  string "2026-02-30" parses, the Date constructor turns 30 February 2026 into 2 March
  2026, and \<open>adToBs\<close> answers for 30 February what it answers for 2 March, whatever
  the package does. \<open>adToBs_rollover\<close> says the same of every year from 100 on and every
  month but December.
\<close>

theorem C7_adToBs_rollover:
  "parseADDate (u ''2026-02-30'') = Some \<lparr>ad_year = 2026, ad_month = 2, ad_day = 30\<rparr>
   \<and> new_Date 2026 1 30 = JSDate 2026 2 2
   \<and> adToBs np \<lparr>ad_year = 2026, ad_month = 2, ad_day = 30\<rparr>
       = adToBs np \<lparr>ad_year = 2026, ad_month = 3, ad_day = 2\<rparr>"
proof -
  have "new_Date 2026 1 30 = JSDate 2026 2 2"
    by code_simp
  moreover have "new_Date 2026 2 2 = JSDate 2026 2 2"
    by code_simp
  ultimately show ?thesis
    by (simp add: adToBs_def parse_feb_30)
qed

subsection \<open>The reference date\<close>

lemma parse_reference_bs:
  "parseBSDate (u ''2082/09/07'') = Some \<lparr>bs_year = 2082, bs_month = 9, bs_day = 7\<rparr>"
  by (simp add: parse_defs str_defs)

lemma parse_reference_ad:
  "parseADDate (u ''2025-12-22'') = Some \<lparr>ad_year = 2025, ad_month = 12, ad_day = 22\<rparr>"
  by (simp add: parse_defs str_defs)

lemma format_reference_bs:
  "formatBSDate \<lparr>bs_year = 2082, bs_month = 9, bs_day = 7\<rparr> = u ''2082/09/07''"
  by (simp add: parse_defs str_defs)

lemma format_reference_ad:
  "formatADDate \<lparr>ad_year = 2025, ad_month = 12, ad_day = 22\<rparr> = u ''2025-12-22''"
  by (simp add: parse_defs str_defs)

lemma new_Date_reference: "new_Date 2025 11 22 = JSDate 2025 11 22"
  by code_simp

text \<open>
  C8. With a package that converts Poush 7, 2082 to 22 December 2025 and back,
  \<open>convertFromBS\<close> of "2082/09/07" and \<open>convertFromAD\<close> of "2025-12-22" both succeed,
  with the formatted values "2082/09/07" and "2025-12-22".
\<close>

theorem C8_reference_conversion:
  assumes "new_NepaliDate np 2082 8 7 = Some n1"
      and "getAD n1 = \<lparr>np_year = 2025, np_month = 11, np_date = 22\<rparr>"
      and "NepaliDate_of_Date np (JSDate 2025 11 22) = Some n2"
      and "getBS n2 = \<lparr>np_year = 2082, np_month = 8, np_date = 7\<rparr>"
  shows "(\<exists>c. convertFromBS np (u ''2082/09/07'') = Some c
              \<and> bsFormatted c = u ''2082/09/07'' \<and> adFormatted c = u ''2025-12-22'')
       \<and> (\<exists>c. convertFromAD np (u ''2025-12-22'') = Some c
              \<and> bsFormatted c = u ''2082/09/07'' \<and> adFormatted c = u ''2025-12-22'')"
proof -
  have b2a: "bsToAd np \<lparr>bs_year = 2082, bs_month = 9, bs_day = 7\<rparr>
             = Some \<lparr>ad_year = 2025, ad_month = 12, ad_day = 22\<rparr>"
    using assms(1,2) by (simp add: bsToAd_def)
  have a2b: "adToBs np \<lparr>ad_year = 2025, ad_month = 12, ad_day = 22\<rparr>
             = Some \<lparr>bs_year = 2082, bs_month = 9, bs_day = 7\<rparr>"
    using assms(3,4) by (simp add: adToBs_def new_Date_reference)
  show ?thesis
    by (simp add: convertFromBS_def convertFromAD_def parse_reference_bs parse_reference_ad
                  b2a a2b format_reference_bs format_reference_ad)
qed

theorem C8_reference_conversion_witness:
  "(\<exists>c. convertFromBS referenceLib (u ''2082/09/07'') = Some c
              \<and> bsFormatted c = u ''2082/09/07'' \<and> adFormatted c = u ''2025-12-22'')
       \<and> (\<exists>c. convertFromAD referenceLib (u ''2025-12-22'') = Some c
              \<and> bsFormatted c = u ''2082/09/07'' \<and> adFormatted c = u ''2025-12-22'')"
proof -
  have h1: "new_NepaliDate referenceLib 2082 8 7 = Some reference_date"
    by (simp add: referenceLib_def)
  have h2: "getAD reference_date = \<lparr>np_year = 2025, np_month = 11, np_date = 22\<rparr>"
    by (simp add: reference_date_def)
  have h3: "NepaliDate_of_Date referenceLib (JSDate 2025 11 22) = Some reference_date"
    by (simp add: referenceLib_def)
  have h4: "getBS reference_date = \<lparr>np_year = 2082, np_month = 8, np_date = 7\<rparr>"
    by (simp add: reference_date_def)
  show ?thesis
    by (rule C8_reference_conversion [OF h1 h2 h3 h4])
qed

subsection \<open>Fiscal year\<close>

lemma pad_two_digits:
  assumes "0 \<le> n" "n < 100"
  shows "padStart 2 48 (numberToString n) = two_digits n"
proof (cases "n < 10")
  case True
  then have "numberToString n = [48 + nat n]"
    using assms by (simp add: numberToString_def digits10.simps)
  moreover have "n div 10 = 0" "n mod 10 = n"
    using True assms by simp_all
  ultimately show ?thesis
    by (simp add: padStart_def two_digits_def)
next
  case False
  then have "nat n div 10 < 10"
    using assms by linarith
  then have "digits10 (nat n) = [48 + nat n div 10, 48 + nat n mod 10]"
    using False by (simp add: digits10.simps[of "nat n"] digits10.simps[of "nat n div 10"])
  moreover have "nat n div 10 = nat (n div 10)" "nat n mod 10 = nat (n mod 10)"
    using assms by (simp_all add: nat_div_distrib nat_mod_distrib)
  ultimately show ?thesis
    using assms by (simp add: padStart_def two_digits_def numberToString_def)
qed

lemma js_rem_nonneg: "0 \<le> a \<Longrightarrow> js_rem a 100 = a mod 100"
  by (cases "a = 0") (simp_all add: js_rem_def)

text \<open>
  C9. \<open>getFiscalYear\<close> returns the year, a slash and \<open>(year + 1) % 100\<close> padded to two
  digits when the month is at least 4, and \<open>year - 1\<close>, a slash and \<open>year % 100\<close> padded
  to two digits otherwise. For a year that is not negative the second component is
  exactly the two decimal digits of the remainder. Poush 7, 2082 lies in "2082/83" and
  Jestha 15, 2082 in "2081/82".
\<close>

theorem C9_getFiscalYear:
  "getFiscalYear b =
     (if bs_month b \<ge> 4
      then numberToString (bs_year b) @ [47]
             @ padStart 2 48 (numberToString (js_rem (bs_year b + 1) 100))
      else numberToString (bs_year b - 1) @ [47]
             @ padStart 2 48 (numberToString (js_rem (bs_year b) 100)))
   \<and> (0 \<le> bs_year b \<longrightarrow>
        getFiscalYear b =
          (if bs_month b \<ge> 4
           then numberToString (bs_year b) @ [47] @ two_digits ((bs_year b + 1) mod 100)
           else numberToString (bs_year b - 1) @ [47] @ two_digits (bs_year b mod 100)))
   \<and> getFiscalYear \<lparr>bs_year = 2082, bs_month = 9, bs_day = 7\<rparr> = u ''2082/83''
   \<and> getFiscalYear \<lparr>bs_year = 2082, bs_month = 2, bs_day = 15\<rparr> = u ''2081/82''"
proof (intro conjI impI)
  show "getFiscalYear b =
     (if bs_month b \<ge> 4
      then numberToString (bs_year b) @ [47]
             @ padStart 2 48 (numberToString (js_rem (bs_year b + 1) 100))
      else numberToString (bs_year b - 1) @ [47]
             @ padStart 2 48 (numberToString (js_rem (bs_year b) 100)))"
    by (simp add: getFiscalYear_def Let_def)
next
  assume nonneg: "0 \<le> bs_year b"
  have a: "padStart 2 48 (numberToString (js_rem (bs_year b + 1) 100))
           = two_digits ((bs_year b + 1) mod 100)"
    using nonneg by (simp add: js_rem_nonneg pad_two_digits)
  have c: "padStart 2 48 (numberToString (js_rem (bs_year b) 100))
           = two_digits (bs_year b mod 100)"
    using nonneg by (simp add: js_rem_nonneg pad_two_digits)
  show "getFiscalYear b =
          (if bs_month b \<ge> 4
           then numberToString (bs_year b) @ [47] @ two_digits ((bs_year b + 1) mod 100)
           else numberToString (bs_year b - 1) @ [47] @ two_digits (bs_year b mod 100))"
    by (simp add: getFiscalYear_def Let_def a c)
next
  show "getFiscalYear \<lparr>bs_year = 2082, bs_month = 9, bs_day = 7\<rparr> = u ''2082/83''"
    by (simp add: getFiscalYear_def js_rem_def parse_defs u_def)
next
  show "getFiscalYear \<lparr>bs_year = 2082, bs_month = 2, bs_day = 15\<rparr> = u ''2081/82''"
    by (simp add: getFiscalYear_def js_rem_def parse_defs u_def)
qed

theorem C9_getFiscalYear_witness:
  "(0::int) \<le> 2099
   \<and> getFiscalYear \<lparr>bs_year = 2099, bs_month = 4, bs_day = 1\<rparr>
       = numberToString 2099 @ [47] @ two_digits 0
   \<and> numberToString 2099 @ [47] @ two_digits 0 = u ''2099/00''"
proof -
  from C9_getFiscalYear [of "\<lparr>bs_year = 2099, bs_month = 4, bs_day = 1\<rparr>",
         THEN conjunct2, THEN conjunct1]
  have "getFiscalYear \<lparr>bs_year = 2099, bs_month = 4, bs_day = 1\<rparr>
       = numberToString 2099 @ [47] @ two_digits 0"
    by simp
  moreover have "numberToString 2099 @ [47] @ two_digits 0 = u ''2099/00''"
    by (simp add: two_digits_def numberToString_def digits10.simps u_def)
  ultimately show ?thesis
    by simp
qed

end
